theory Spec2Isabelle
  imports Main
begin

section \<open>pwnlib.atexception: callbacks run on an unhandled exception\<close>

text \<open>
  The module keeps a dictionary \<^verbatim>\<open>_handlers\<close> from a callable to the pair
  \<^verbatim>\<open>(args, kwargs)\<close> it is to be called with, remembers the exception hook that was
  installed before it was imported (\<^verbatim>\<open>_oldhook\<close>) and installs \<^verbatim>\<open>_newhook\<close> in its place.
  The embedding below follows \<^verbatim>\<open>src/pwnlib/atexception.py\<close> function by function. What the
  module does not define itself (what a registered callable does when it is called,
  whether an object can be hashed, what the previous hook does) is a parameter of the
  model, collected in the record \<open>env\<close>.

  The model covers calls that come back: a callable that is called returns or raises.
  The callables act on the world outside the module; a callable that changes
  \<^verbatim>\<open>_handlers\<close> while \<^verbatim>\<open>_run_handlers\<close> iterates over it is not covered. Printing a
  report is taken to succeed.
\<close>

subsection \<open>Exceptions and tracebacks\<close>

text \<open>
  The built-in roots of Python's exception hierarchy, and classes derived from them.
  \<open>Subclass n bs\<close> is a class named \<open>n\<close> with the base classes \<open>bs\<close>; an
  \<^verbatim>\<open>except C:\<close> clause matches an exception whose class is \<open>C\<close> or has \<open>C\<close> among its
  ancestors.
\<close>

datatype exc_class =
    BaseException
  | SystemExit
  | KeyboardInterrupt
  | GeneratorExit
  | Exception
  | Subclass string "exc_class list"

fun issubclass :: "exc_class \<Rightarrow> exc_class \<Rightarrow> bool" where
  "issubclass BaseException d = (d = BaseException)"
| "issubclass SystemExit d = (d = SystemExit \<or> d = BaseException)"
| "issubclass KeyboardInterrupt d = (d = KeyboardInterrupt \<or> d = BaseException)"
| "issubclass GeneratorExit d = (d = GeneratorExit \<or> d = BaseException)"
| "issubclass Exception d = (d = Exception \<or> d = BaseException)"
| "issubclass (Subclass n bs) d = (d = Subclass n bs \<or> list_ex (\<lambda>b. issubclass b d) bs)"

text \<open>
  A traceback is the chain of its entries, outermost frame first; the empty list is
  Python's \<^verbatim>\<open>None\<close>. An entry names the function and the line of the frame.
\<close>

type_synonym frame = "string \<times> nat"
type_synonym traceback = "frame list"

text \<open>What a call of a foreign callable does: it returns, or it raises.\<close>

datatype 'v outcome = Returned | Raised exc_class 'v traceback

text \<open>The exceptions the module's own statements can raise or let through.\<close>

datatype 'v raised =
    TypeError_unhashable
  | TypeError_arguments
  | KeyError_missing
  | AttributeError_None
  | Propagated exc_class 'v traceback

text \<open>\<^verbatim>\<open>tb.tb_next\<close>: the rest of the chain; an attribute error on \<^verbatim>\<open>None\<close>.\<close>

fun tb_next :: "traceback \<Rightarrow> 'v raised + traceback" where
  "tb_next [] = Inl AttributeError_None"
| "tb_next (fr # rest) = Inr rest"

subsection \<open>The environment and the state\<close>

type_synonym 'v kwargs = "(string \<times> 'v) list"
type_synonym ('f, 'v) handlers = "('f \<times> ('v list \<times> 'v kwargs)) list"

text \<open>
  \<open>hashable f\<close>: \<^verbatim>\<open>hash(f)\<close> succeeds, so \<open>f\<close> can be a dictionary key.
  \<open>invoke f args kwargs w\<close>: the call \<^verbatim>\<open>f(*args, **kwargs)\<close> in the world \<open>w\<close> (everything
  the callables can read and change, the registry apart), with its outcome and the world
  it leaves; the traceback of a \<open>Raised\<close> outcome holds the frames below the caller's.
  \<open>truthy h\<close>: the truth value of the object \<open>h\<close>, as tested by \<^verbatim>\<open>if h:\<close>.
  \<open>call_hook h typ val tb w\<close>: the call \<^verbatim>\<open>h(typ, val, tb)\<close>.
\<close>

record ('f, 'v, 'w, 'h) env =
  hashable :: "'f \<Rightarrow> bool"
  invoke :: "'f \<Rightarrow> 'v list \<Rightarrow> 'v kwargs \<Rightarrow> 'w \<Rightarrow> 'v outcome \<times> 'w"
  truthy :: "'h \<Rightarrow> bool"
  call_hook :: "'h \<Rightarrow> exc_class \<Rightarrow> 'v \<Rightarrow> traceback \<Rightarrow> 'w \<Rightarrow> 'v outcome \<times> 'w"

text \<open>
  What can be observed of a run, in the order it happens: a call of a registered
  callable with its arguments, a report printed by \<^verbatim>\<open>traceback.print_exception\<close>, a call
  of the previous hook.
\<close>

datatype ('f, 'v, 'h) event =
    Called 'f "'v list" "'v kwargs"
  | Printed exc_class 'v traceback
  | HookCalled 'h exc_class 'v traceback

record ('f, 'v, 'w, 'h) state =
  handlers :: "('f, 'v) handlers"
  oldhook :: "'h option"
  world :: 'w
  trace :: "('f, 'v, 'h) event list"

subsection \<open>The dictionary\<close>

text \<open>
  \<^verbatim>\<open>_handlers\<close> is a list of items with one item for a key. The order of the list is the
  order in which \<^verbatim>\<open>items()\<close> yields them; the theorems hold for every order.
  Every access by key hashes the key first.
\<close>

fun store :: "'k \<Rightarrow> 'a \<Rightarrow> ('k \<times> 'a) list \<Rightarrow> ('k \<times> 'a) list" where
  "store k v [] = [(k, v)]"
| "store k v ((k', v') # d) = (if k' = k then (k, v) # d else (k', v') # store k v d)"

fun remove :: "'k \<Rightarrow> ('k \<times> 'a) list \<Rightarrow> ('k \<times> 'a) list" where
  "remove k [] = []"
| "remove k ((k', v') # d) = (if k' = k then remove k d else (k', v') # remove k d)"

definition has_key :: "('k \<times> 'a) list \<Rightarrow> 'k \<Rightarrow> bool" where
  "has_key d k = (k \<in> set (map fst d))"

definition dict_setitem ::
  "('f, 'v, 'w, 'h) env \<Rightarrow> ('f, 'v) handlers \<Rightarrow> 'f \<Rightarrow> 'v list \<times> 'v kwargs
     \<Rightarrow> 'v raised + ('f, 'v) handlers" where
  "dict_setitem E d k v = (if hashable E k then Inr (store k v d) else Inl TypeError_unhashable)"

definition dict_contains ::
  "('f, 'v, 'w, 'h) env \<Rightarrow> ('f, 'v) handlers \<Rightarrow> 'f \<Rightarrow> 'v raised + bool" where
  "dict_contains E d k = (if hashable E k then Inr (has_key d k) else Inl TypeError_unhashable)"

definition dict_delitem ::
  "('f, 'v, 'w, 'h) env \<Rightarrow> ('f, 'v) handlers \<Rightarrow> 'f \<Rightarrow> 'v raised + ('f, 'v) handlers" where
  "dict_delitem E d k =
     (if \<not> hashable E k then Inl TypeError_unhashable
      else if has_key d k then Inr (remove k d)
      else Inl KeyError_missing)"

subsection \<open>The module\<close>

text \<open>
  Import of the module: \<^verbatim>\<open>_handlers = {}\<close>, and \<^verbatim>\<open>_oldhook\<close> is \<^verbatim>\<open>sys.excepthook\<close> if
  \<^verbatim>\<open>sys\<close> has that attribute (\<open>Some h\<close>), \<^verbatim>\<open>None\<close> otherwise.
\<close>

definition module_load :: "'h option \<Rightarrow> 'w \<Rightarrow> ('f, 'v, 'w, 'h) state" where
  "module_load excepthook w = \<lparr>handlers = [], oldhook = excepthook, world = w, trace = []\<rparr>"

text \<open>
  The parameter list \<^verbatim>\<open>(func, *args, **kwargs)\<close> of line 18. A call passes the callable,
  further positional arguments and keyword arguments. The first positional argument is
  bound to \<^verbatim>\<open>func\<close>, so a keyword argument named \<^verbatim>\<open>func\<close> gives that parameter a second
  value, and a keyword given twice (through \<^verbatim>\<open>**\<close> unpacking) gives a keyword two values:
  both calls raise \<^verbatim>\<open>TypeError\<close> before the body of the function is entered.
\<close>

definition bindable :: "'v kwargs \<Rightarrow> bool" where
  "bindable kwargs = (distinct (map fst kwargs) \<and> \<not> has_key kwargs ''func'')"

definition bind_register ::
  "'f \<Rightarrow> 'v list \<Rightarrow> 'v kwargs \<Rightarrow> 'v raised + ('f \<times> 'v list \<times> 'v kwargs)" where
  "bind_register func args kwargs =
     (if bindable kwargs then Inr (func, args, kwargs) else Inl TypeError_arguments)"

text \<open>\<^verbatim>\<open>register(func, *args, **kwargs)\<close>, lines 18 to 28: the binding, then the body.\<close>

definition register ::
  "('f, 'v, 'w, 'h) env \<Rightarrow> 'f \<Rightarrow> 'v list \<Rightarrow> 'v kwargs \<Rightarrow> ('f, 'v, 'w, 'h) state
     \<Rightarrow> ('v raised + 'f) \<times> ('f, 'v, 'w, 'h) state" where
  "register E f a kw s =
     (case bind_register f a kw of
        Inl e \<Rightarrow> (Inl e, s)
      | Inr (func, args, kwargs) \<Rightarrow>
          (case dict_setitem E (handlers s) func (args, kwargs) of
             Inl e \<Rightarrow> (Inl e, s)
           | Inr d \<Rightarrow> (Inr func, s\<lparr>handlers := d\<rparr>)))"

text \<open>\<^verbatim>\<open>unregister(func)\<close>, lines 30 to 37.\<close>

definition unregister ::
  "('f, 'v, 'w, 'h) env \<Rightarrow> 'f \<Rightarrow> ('f, 'v, 'w, 'h) state
     \<Rightarrow> ('v raised + unit) \<times> ('f, 'v, 'w, 'h) state" where
  "unregister E func s =
     (case dict_contains E (handlers s) func of
        Inl e \<Rightarrow> (Inl e, s)
      | Inr present \<Rightarrow>
          if present then
            (case dict_delitem E (handlers s) func of
               Inl e \<Rightarrow> (Inl e, s)
             | Inr d \<Rightarrow> (Inr (), s\<lparr>handlers := d\<rparr>))
          else (Inr (), s))"

text \<open>
  \<^verbatim>\<open>sys.exc_info()\<close> in the handler of line 52: the class and the value of the exception
  being handled, and its traceback, which starts at the frame that caught it (line 49 of
  \<^verbatim>\<open>_run_handlers\<close>) and goes on into the callable.
\<close>

definition exc_info :: "exc_class \<Rightarrow> 'v \<Rightarrow> traceback \<Rightarrow> exc_class \<times> 'v \<times> traceback" where
  "exc_info c v inner = (c, v, (''_run_handlers'', 49) # inner)"

text \<open>\<^verbatim>\<open>traceback.print_exception(typ, val, tb)\<close> writes one report.\<close>

definition print_exception ::
  "exc_class \<Rightarrow> 'v \<Rightarrow> traceback \<Rightarrow> ('f, 'v, 'w, 'h) state \<Rightarrow> ('f, 'v, 'w, 'h) state" where
  "print_exception typ val tb s = s\<lparr>trace := trace s @ [Printed typ val tb]\<rparr>"

text \<open>
  The body of the loop of \<^verbatim>\<open>_run_handlers\<close>, lines 48 to 56: the call inside \<^verbatim>\<open>try\<close>,
  the clause \<^verbatim>\<open>except SystemExit: pass\<close>, then the bare \<^verbatim>\<open>except:\<close>.
\<close>

definition handler_step ::
  "('f, 'v, 'w, 'h) env \<Rightarrow> 'f \<times> ('v list \<times> 'v kwargs) \<Rightarrow> ('f, 'v, 'w, 'h) state
     \<Rightarrow> ('v raised + unit) \<times> ('f, 'v, 'w, 'h) state" where
  "handler_step E item s =
     (case item of (func, (args, kwargs)) \<Rightarrow>
        (case invoke E func args kwargs (world s) of (out, w) \<Rightarrow>
           (let s1 = s\<lparr>world := w, trace := trace s @ [Called func args kwargs]\<rparr> in
            case out of
              Returned \<Rightarrow> (Inr (), s1)
            | Raised c v inner \<Rightarrow>
                if issubclass c SystemExit then (Inr (), s1)
                else
                  (case exc_info c v inner of (typ, val, tb) \<Rightarrow>
                     (case tb_next tb of
                        Inl e \<Rightarrow> (Inl e, s1)
                      | Inr tb' \<Rightarrow> (Inr (), print_exception typ val tb' s1))))))"

text \<open>The loop over the items; an exception that leaves the body ends it.\<close>

fun for_items ::
  "('f, 'v, 'w, 'h) env \<Rightarrow> ('f, 'v) handlers \<Rightarrow> ('f, 'v, 'w, 'h) state
     \<Rightarrow> ('v raised + unit) \<times> ('f, 'v, 'w, 'h) state" where
  "for_items E [] s = (Inr (), s)"
| "for_items E (item # items) s =
     (case handler_step E item s of
        (Inl e, s') \<Rightarrow> (Inl e, s')
      | (Inr u, s') \<Rightarrow> for_items E items s')"

text \<open>\<^verbatim>\<open>_run_handlers()\<close>, lines 39 to 56.\<close>

definition run_handlers ::
  "('f, 'v, 'w, 'h) env \<Rightarrow> ('f, 'v, 'w, 'h) state
     \<Rightarrow> ('v raised + unit) \<times> ('f, 'v, 'w, 'h) state" where
  "run_handlers E s = for_items E (handlers s) s"

text \<open>
  \<^verbatim>\<open>_newhook(typ, val, tb)\<close>, lines 58 to 66. \<^verbatim>\<open>if _oldhook:\<close> tests the truth value of
  the object, which is false for \<^verbatim>\<open>None\<close>. The call of the previous hook is not inside a
  \<^verbatim>\<open>try\<close>: an exception it raises leaves \<^verbatim>\<open>_newhook\<close> at line 65.
\<close>

definition newhook ::
  "('f, 'v, 'w, 'h) env \<Rightarrow> exc_class \<Rightarrow> 'v \<Rightarrow> traceback \<Rightarrow> ('f, 'v, 'w, 'h) state
     \<Rightarrow> ('v raised + unit) \<times> ('f, 'v, 'w, 'h) state" where
  "newhook E typ val tb s =
     (case oldhook s of
        None \<Rightarrow> run_handlers E s
      | Some h \<Rightarrow>
          if truthy E h then
            (case call_hook E h typ val tb (world s) of (out, w) \<Rightarrow>
               (let s1 = s\<lparr>world := w, trace := trace s @ [HookCalled h typ val tb]\<rparr> in
                case out of
                  Returned \<Rightarrow> run_handlers E s1
                | Raised c v t \<Rightarrow> (Inl (Propagated c v ((''_newhook'', 65) # t)), s1)))
          else run_handlers E s)"

subsection \<open>Observing a run\<close>

text \<open>The calls of registered callables among some events, in their order.\<close>

fun calls_of :: "('f, 'v, 'h) event list \<Rightarrow> ('f \<times> ('v list \<times> 'v kwargs)) list" where
  "calls_of [] = []"
| "calls_of (Called f a kw # evs) = (f, (a, kw)) # calls_of evs"
| "calls_of (Printed c v tb # evs) = calls_of evs"
| "calls_of (HookCalled h c v tb # evs) = calls_of evs"


text \<open>What one run of \<^verbatim>\<open>_run_handlers\<close> adds to the trace.\<close>

definition crash_events ::
  "('f, 'v, 'w, 'h) env \<Rightarrow> ('f, 'v, 'w, 'h) state \<Rightarrow> ('f, 'v, 'h) event list" where
  "crash_events E s = drop (length (trace s)) (trace (snd (run_handlers E s)))"

text \<open>
  What the specification asks of a crash, written from its words: every item's callable
  is applied once to the item's stored arguments, one item after the other, each in the
  world the one before has left, whether it returns or raises.
\<close>

fun invoke_each_once :: "('f, 'v, 'w, 'h) env \<Rightarrow> ('f, 'v) handlers \<Rightarrow> 'w \<Rightarrow> 'w" where
  "invoke_each_once E [] w = w"
| "invoke_each_once E ((f, (a, kw)) # items) w =
     invoke_each_once E items (snd (invoke E f a kw w))"

text \<open>The items of a dictionary before and after the first item keyed by \<open>k\<close>.\<close>

definition before_key :: "'k \<Rightarrow> ('k \<times> 'a) list \<Rightarrow> ('k \<times> 'a) list" where
  "before_key k d = takeWhile (\<lambda>item. fst item \<noteq> k) d"

definition after_key :: "'k \<Rightarrow> ('k \<times> 'a) list \<Rightarrow> ('k \<times> 'a) list" where
  "after_key k d = drop 1 (dropWhile (\<lambda>item. fst item \<noteq> k) d)"

text \<open>The items of a dictionary that are keyed by \<open>k\<close>, and the others.\<close>

definition entries_of :: "'k \<Rightarrow> ('k \<times> 'a) list \<Rightarrow> ('k \<times> 'a) list" where
  "entries_of k d = filter (\<lambda>item. fst item = k) d"

definition entries_except :: "'k \<Rightarrow> ('k \<times> 'a) list \<Rightarrow> ('k \<times> 'a) list" where
  "entries_except k d = filter (\<lambda>item. fst item \<noteq> k) d"

text \<open>
  A client's calls of the two public functions, one after the other from the state the
  import leaves. A call that raises leaves the state as it was.
\<close>

datatype ('f, 'v) call = Register 'f "'v list" "'v kwargs" | Unregister 'f

fun do_call ::
  "('f, 'v, 'w, 'h) env \<Rightarrow> ('f, 'v) call \<Rightarrow> ('f, 'v, 'w, 'h) state \<Rightarrow> ('f, 'v, 'w, 'h) state" where
  "do_call E (Register f a kw) s = snd (register E f a kw s)"
| "do_call E (Unregister f) s = snd (unregister E f s)"

fun run_calls ::
  "('f, 'v, 'w, 'h) env \<Rightarrow> ('f, 'v) call list \<Rightarrow> ('f, 'v, 'w, 'h) state \<Rightarrow> ('f, 'v, 'w, 'h) state" where
  "run_calls E [] s = s"
| "run_calls E (c # cs) s = run_calls E cs (do_call E c s)"

subsection \<open>A concrete environment\<close>

text \<open>
  Objects are numbered. Object 1 is a callable that raises \<^verbatim>\<open>ValueError("boom")\<close>, 2 one
  that calls \<^verbatim>\<open>sys.exit\<close>, 3 one that raises \<^verbatim>\<open>KeyboardInterrupt\<close>; every other callable
  appends its positional arguments to the world, a list of strings, and returns.
  Objects from 100 on cannot be hashed. Hook 0 is an object whose truth value is false,
  hook 7 raises \<^verbatim>\<open>RuntimeError\<close>, every other hook records \<^verbatim>\<open>reported\<close> and returns.
\<close>

definition ValueError :: exc_class where
  "ValueError = Subclass ''ValueError'' [Exception]"

definition RuntimeError :: exc_class where
  "RuntimeError = Subclass ''RuntimeError'' [Exception]"

definition demo_env :: "(nat, string, string list, nat) env" where
  "demo_env =
     \<lparr>hashable = (\<lambda>f. f < 100),
      invoke = (\<lambda>f args kwargs w.
        if f = 1 then (Raised ValueError ''boom'' [(''flaky'', 2)], w)
        else if f = 2 then (Raised SystemExit ''0'' [(''quit'', 5)], w)
        else if f = 3 then (Raised KeyboardInterrupt ''^C'' [(''wait'', 9)], w)
        else (Returned, w @ args)),
      truthy = (\<lambda>h. h \<noteq> 0),
      call_hook = (\<lambda>h typ val tb w.
        if h = 7 then (Raised RuntimeError ''hook'' [(''badhook'', 1)], w)
        else (Returned, w @ [''reported'']))\<rparr>"

text \<open>A registry with the three failing callables between two that succeed.\<close>

definition demo_handlers :: "(nat, string) handlers" where
  "demo_handlers =
     [(4, ([''first''], [])), (1, ([], [])), (2, ([], [])), (3, ([], [])),
      (5, ([''last''], [(''level'', ''fatal'')]))]"

definition demo_state :: "nat option \<Rightarrow> (nat, string, string list, nat) state" where
  "demo_state h = \<lparr>handlers = demo_handlers, oldhook = h, world = [], trace = []\<rparr>"

text \<open>What one call of \<^verbatim>\<open>_newhook\<close> adds to the trace.\<close>

definition hook_events ::
  "('f, 'v, 'w, 'h) env \<Rightarrow> exc_class \<Rightarrow> 'v \<Rightarrow> traceback \<Rightarrow> ('f, 'v, 'w, 'h) state
     \<Rightarrow> ('f, 'v, 'h) event list" where
  "hook_events E typ val tb s = drop (length (trace s)) (trace (snd (newhook E typ val tb s)))"

section \<open>Properties\<close>

subsection \<open>The dictionary\<close>

lemma store_keys:
  "map fst (store k v d) = (if has_key d k then map fst d else map fst d @ [k])"
  by (induction d) (force simp: has_key_def)+

lemma store_distinct: "distinct (map fst d) \<Longrightarrow> distinct (map fst (store k v d))"
  by (simp add: store_keys has_key_def)

lemma store_lookup: "map_of (store k v d) = (map_of d)(k \<mapsto> v)"
  by (induction d) (auto simp: fun_eq_iff)

lemma store_others: "entries_except k (store k v d) = entries_except k d"
  by (induction d) (auto simp: entries_except_def)

lemma store_entry:
  "distinct (map fst d) \<Longrightarrow> entries_of k (store k v d) = [(k, v)]"
proof (induction d)
  case Nil
  show ?case by (simp add: entries_of_def)
next
  case (Cons item d)
  obtain k' v' where item: "item = (k', v')" by (cases item)
  show ?case
  proof (cases "k' = k")
    case True
    with Cons.prems item have "k \<notin> fst ` set d" by simp
    then have "filter (\<lambda>x. fst x = k) d = []" by (auto simp: filter_empty_conv)
    with True item show ?thesis by (simp add: entries_of_def)
  next
    case False
    with Cons item show ?thesis by (simp add: entries_of_def)
  qed
qed

lemma remove_filter: "remove k d = entries_except k d"
  by (induction d) (auto simp: entries_except_def)

lemma remove_distinct: "distinct (map fst d) \<Longrightarrow> distinct (map fst (remove k d))"
  by (simp add: remove_filter entries_except_def distinct_map_filter)

lemma remove_lookup: "map_of (remove k d) = (map_of d)(k := None)"
  by (induction d) (auto simp: fun_eq_iff)

lemma remove_key: "\<not> has_key (remove k d) k"
  by (auto simp: remove_filter entries_except_def has_key_def)

lemma remove_absent: "\<not> has_key d k \<Longrightarrow> remove k d = d"
  by (induction d) (auto simp: has_key_def)

lemma entries_of_absent: "\<not> has_key d k \<Longrightarrow> entries_of k d = []"
  by (auto simp: entries_of_def has_key_def filter_empty_conv)

lemma entries_of_distinct:
  "distinct (map fst d) \<Longrightarrow>
   entries_of k d = (case map_of d k of None \<Rightarrow> [] | Some v \<Rightarrow> [(k, v)])"
proof (induction d)
  case Nil
  show ?case by (simp add: entries_of_def)
next
  case (Cons item d)
  obtain k' v' where item: "item = (k', v')" by (cases item)
  show ?case
  proof (cases "k' = k")
    case True
    with Cons.prems item have "\<not> has_key d k" by (simp add: has_key_def)
    then have "entries_of k d = []" by (rule entries_of_absent)
    with True item show ?thesis by (simp add: entries_of_def)
  next
    case False
    with Cons item show ?thesis by (simp add: entries_of_def)
  qed
qed

lemma entries_of_length: "distinct (map fst d) \<Longrightarrow> length (entries_of k d) \<le> 1"
  by (simp add: entries_of_distinct split: option.split)

subsection \<open>The two public functions\<close>

lemma register_hashable:
  "bindable kw \<Longrightarrow> hashable E f \<Longrightarrow>
   register E f a kw s = (Inr f, s\<lparr>handlers := store f (a, kw) (handlers s)\<rparr>)"
  by (simp add: register_def bind_register_def dict_setitem_def)

lemma register_unhashable:
  "bindable kw \<Longrightarrow> \<not> hashable E f \<Longrightarrow>
   register E f a kw s = (Inl TypeError_unhashable, s)"
  by (simp add: register_def bind_register_def dict_setitem_def)

lemma register_unbound:
  "\<not> bindable kw \<Longrightarrow> register E f a kw s = (Inl TypeError_arguments, s)"
  by (simp add: register_def bind_register_def)

lemma register_returned:
  assumes "register E f a kw s = (Inr r, s')"
  shows "bindable kw \<and> hashable E f \<and> r = f \<and>
    s' = s\<lparr>handlers := store f (a, kw) (handlers s)\<rparr>"
proof (cases "bindable kw")
  case False
  with assms show ?thesis by (simp add: register_unbound)
next
  case True
  with assms show ?thesis
    by (cases "hashable E f") (auto simp add: register_hashable register_unhashable)
qed

lemma register_cases:
  "register E f a kw s = (Inr f, s\<lparr>handlers := store f (a, kw) (handlers s)\<rparr>) \<or>
   snd (register E f a kw s) = s"
  by (simp add: register_def bind_register_def dict_setitem_def)

lemma unregister_hashable:
  "hashable E f \<Longrightarrow>
   unregister E f s = (Inr (), s\<lparr>handlers := remove f (handlers s)\<rparr>)"
  by (simp add: unregister_def dict_contains_def dict_delitem_def remove_absent)

lemma unregister_unhashable:
  "\<not> hashable E f \<Longrightarrow> unregister E f s = (Inl TypeError_unhashable, s)"
  by (simp add: unregister_def dict_contains_def)

lemma do_call_distinct:
  "distinct (map fst (handlers s)) \<Longrightarrow> distinct (map fst (handlers (do_call E c s)))"
proof (cases c)
  case (Register f a kw)
  assume "distinct (map fst (handlers s))"
  with Register show ?thesis
    using register_cases [of E f a kw s] by (auto simp add: store_distinct)
next
  case (Unregister f)
  assume "distinct (map fst (handlers s))"
  with Unregister show ?thesis
    by (cases "hashable E f")
       (simp_all add: unregister_hashable unregister_unhashable remove_distinct)
qed

lemma run_calls_distinct:
  "distinct (map fst (handlers s)) \<Longrightarrow> distinct (map fst (handlers (run_calls E cs s)))"
  by (induction cs arbitrary: s) (simp_all add: do_call_distinct)

lemma loaded_distinct:
  "distinct (map fst (handlers (run_calls E cs (module_load h w))))"
  by (rule run_calls_distinct) (simp add: module_load_def)

subsection \<open>The loop of \<open>run_handlers\<close>\<close>

lemma calls_of_append: "calls_of (xs @ ys) = calls_of xs @ calls_of ys"
  by (induction xs rule: calls_of.induct) simp_all

lemma handler_step_returns: "fst (handler_step E item s) = Inr ()"
  by (cases item)
     (simp add: handler_step_def exc_info_def print_exception_def Let_def
           split: prod.split outcome.split)

lemma handler_step_exit:
  "invoke E f a kw (world s) = (Raised c v inner, w) \<Longrightarrow> issubclass c SystemExit \<Longrightarrow>
   handler_step E (f, (a, kw)) s =
     (Inr (), s\<lparr>world := w, trace := trace s @ [Called f a kw]\<rparr>)"
  by (simp add: handler_step_def)


lemma handler_step_handlers:
  "handlers (snd (handler_step E item s)) = handlers s"
  by (cases item)
     (simp add: handler_step_def exc_info_def print_exception_def Let_def
           split: prod.split outcome.split)

lemma handler_step_trace:
  "\<exists>evs. trace (snd (handler_step E item s)) = trace s @ evs \<and> calls_of evs = [item]"
  by (cases item)
     (auto simp add: handler_step_def exc_info_def print_exception_def Let_def
           split: prod.split outcome.split)

lemma for_items_returns: "fst (for_items E items s) = Inr ()"
proof (induction items arbitrary: s)
  case Nil
  show ?case by simp
next
  case (Cons item items)
  obtain s' where "handler_step E item s = (Inr (), s')"
    using handler_step_returns [of E item s] by (cases "handler_step E item s") auto
  with Cons.IH [of s'] show ?case by simp
qed

lemma for_items_Cons:
  "for_items E (item # items) s = for_items E items (snd (handler_step E item s))"
  using handler_step_returns [of E item s]
  by (cases "handler_step E item s") auto

lemma for_items_append:
  "for_items E (xs @ ys) s = for_items E ys (snd (for_items E xs s))"
  by (induction xs arbitrary: s) (simp_all add: for_items_Cons del: for_items.simps(2))

lemma for_items_handlers: "handlers (snd (for_items E items s)) = handlers s"
  by (induction items arbitrary: s)
     (simp_all add: for_items_Cons handler_step_handlers del: for_items.simps(2))

lemma for_items_trace:
  "\<exists>evs. trace (snd (for_items E items s)) = trace s @ evs \<and> calls_of evs = items"
proof (induction items arbitrary: s)
  case Nil
  show ?case by simp
next
  case (Cons item items)
  obtain e1 where e1: "trace (snd (handler_step E item s)) = trace s @ e1" "calls_of e1 = [item]"
    using handler_step_trace by blast
  obtain e2 where e2: "trace (snd (for_items E items (snd (handler_step E item s)))) =
        trace (snd (handler_step E item s)) @ e2" "calls_of e2 = items"
    using Cons.IH by blast
  have "trace (snd (for_items E (item # items) s)) = trace s @ (e1 @ e2)"
    using e1 e2 by (simp add: for_items_Cons del: for_items.simps(2))
  moreover have "calls_of (e1 @ e2) = item # items"
    using e1 e2 by (simp add: calls_of_append)
  ultimately show ?case by blast
qed

lemma crash_calls: "calls_of (crash_events E s) = handlers s"
proof -
  obtain evs where "trace (snd (for_items E (handlers s) s)) = trace s @ evs"
    and "calls_of evs = handlers s"
    using for_items_trace by blast
  then show ?thesis by (simp add: crash_events_def run_handlers_def)
qed

lemma run_handlers_split:
  "handlers s = pre @ item # post \<Longrightarrow>
   run_handlers E s = for_items E post (snd (handler_step E item (snd (for_items E pre s))))"
  by (simp add: run_handlers_def for_items_append for_items_Cons del: for_items.simps(2))

subsection \<open>The world a run leaves\<close>

lemma invoke_each_once_append:
  "invoke_each_once E (xs @ ys) w = invoke_each_once E ys (invoke_each_once E xs w)"
  by (induction xs arbitrary: w) auto

lemma handler_step_world:
  "world (snd (handler_step E (f, (a, kw)) s)) = snd (invoke E f a kw (world s))"
  by (simp add: handler_step_def exc_info_def print_exception_def Let_def
        split: prod.split outcome.split)

lemma for_items_world:
  "world (snd (for_items E items s)) = invoke_each_once E items (world s)"
proof (induction items arbitrary: s)
  case Nil
  show ?case by simp
next
  case (Cons item items)
  obtain f a kw where item: "item = (f, (a, kw))" by (cases item) auto
  show ?case
    unfolding item for_items_Cons
    by (simp add: Cons.IH handler_step_world)
qed

lemma run_handlers_world:
  "world (snd (run_handlers E s)) = invoke_each_once E (handlers s) (world s)"
  by (simp add: run_handlers_def for_items_world)

lemma split_at_key:
  "map_of d k = Some v \<Longrightarrow> d = before_key k d @ (k, v) # after_key k d"
proof (induction d)
  case Nil
  then show ?case by simp
next
  case (Cons item d)
  then show ?case
    by (cases item) (auto simp add: before_key_def after_key_def split: if_splits)
qed

lemma before_key_absent: "\<not> has_key (before_key k d) k"
  by (auto simp add: before_key_def has_key_def dest: set_takeWhileD)

lemma after_key_absent:
  "distinct (map fst d) \<Longrightarrow> \<not> has_key (after_key k d) k"
proof (induction d)
  case Nil
  show ?case by (simp add: after_key_def has_key_def)
next
  case (Cons item d)
  then show ?case
    by (cases item) (auto simp add: after_key_def has_key_def)
qed

lemma run_handlers_once:
  assumes "map_of (handlers s) f = Some (a, kw)"
  shows "world (snd (run_handlers E s)) =
    invoke_each_once E (after_key f (handlers s))
      (snd (invoke E f a kw (invoke_each_once E (before_key f (handlers s)) (world s))))"
proof -
  have "invoke_each_once E (before_key f (handlers s) @ (f, (a, kw)) # after_key f (handlers s))
      (world s) =
    invoke_each_once E (after_key f (handlers s))
      (snd (invoke E f a kw (invoke_each_once E (before_key f (handlers s)) (world s))))"
    by (simp add: invoke_each_once_append)
  then show ?thesis
    using split_at_key [OF assms] by (simp add: run_handlers_world)
qed

subsection \<open>The three ways through \<open>newhook\<close>\<close>





text \<open>The definitions that evaluate a run in the concrete environment.\<close>

lemmas demo_defs = demo_state_def demo_handlers_def demo_env_def ValueError_def RuntimeError_def
  run_handlers_def handler_step_def exc_info_def print_exception_def crash_events_def
  newhook_def hook_events_def

section \<open>The claims\<close>

subsection \<open>Failure isolation\<close>



text \<open>
  Claim C2. A registered callable \<open>f\<close> raises \<^verbatim>\<open>SystemExit\<close> (or an exception of a class
  derived from it). The step for \<open>f\<close> ends normally and adds nothing to the trace but the
  call itself: no report. The loop goes on with the callables after \<open>f\<close>, \<open>run_handlers\<close>
  returns normally, and every registered callable has been called.
\<close>

theorem exit_request_swallowed:
  assumes "handlers s = pre @ (f, (a, kw)) # post"
    and "sp = snd (for_items E pre s)"
    and "invoke E f a kw (world sp) = (Raised c v inner, w)"
    and "issubclass c SystemExit"
  shows "handler_step E (f, (a, kw)) sp =
      (Inr (), sp\<lparr>world := w, trace := trace sp @ [Called f a kw]\<rparr>) \<and>
    run_handlers E s =
      for_items E post (sp\<lparr>world := w, trace := trace sp @ [Called f a kw]\<rparr>) \<and>
    fst (run_handlers E s) = Inr () \<and>
    calls_of (crash_events E s) = pre @ (f, (a, kw)) # post"
proof -
  have step: "handler_step E (f, (a, kw)) sp =
      (Inr (), sp\<lparr>world := w, trace := trace sp @ [Called f a kw]\<rparr>)"
    using assms(3,4) by (rule handler_step_exit)
  have "run_handlers E s = for_items E post (snd (handler_step E (f, (a, kw)) sp))"
    using assms(1,2) by (simp add: run_handlers_split)
  with step have run: "run_handlers E s =
      for_items E post (sp\<lparr>world := w, trace := trace sp @ [Called f a kw]\<rparr>)"
    by simp
  have "fst (run_handlers E s) = Inr ()"
    by (simp add: run_handlers_def for_items_returns)
  moreover have "calls_of (crash_events E s) = pre @ (f, (a, kw)) # post"
    using assms(1) by (simp add: crash_calls)
  ultimately show ?thesis using step run by simp
qed

theorem exit_request_swallowed_witness:
  "issubclass SystemExit SystemExit \<and>
   handler_step demo_env (2, ([], []))
     (snd (for_items demo_env [(4, ([''first''], [])), (1, ([], []))] (demo_state None))) =
     (Inr (), \<lparr>handlers = demo_handlers, oldhook = None, world = [''first''],
        trace = [Called 4 [''first''] [], Called 1 [] [],
                 Printed ValueError ''boom'' [(''flaky'', 2)], Called 2 [] []]\<rparr>) \<and>
   calls_of (crash_events demo_env (demo_state None)) = demo_handlers"
proof -
  let ?pre = "[(4, ([''first''], [])), (1, ([], []))]"
  let ?post = "[(3, ([], [])), (5, ([''last''], [(''level'', ''fatal'')]))]"
  have h1: "handlers (demo_state None) = ?pre @ (2, ([], [])) # ?post"
    by (simp add: demo_defs)
  have h3: "invoke demo_env 2 [] [] (world (snd (for_items demo_env ?pre (demo_state None)))) =
      (Raised SystemExit ''0'' [(''quit'', 5)], [''first''])"
    by (simp add: demo_defs)
  have h4: "issubclass SystemExit SystemExit"
    by simp
  from exit_request_swallowed [OF h1 refl h3 h4] show ?thesis
    by (simp add: demo_defs)
qed




subsection \<open>The registry\<close>




text \<open>
  Claim C6, as stated, fails for a second call that cannot bind its arguments:
  \<^verbatim>\<open>register(f, 'new', func='v')\<close> after \<^verbatim>\<open>register(f, 'old')\<close> raises \<^verbatim>\<open>TypeError\<close> and the
  stored arguments of \<open>f\<close> are still the old ones.
\<close>

theorem register_keeps_old_counterexample:
  "register demo_env 4 [''old''] [] (module_load None []) =
     (Inr 4, \<lparr>handlers = [(4, ([''old''], []))], oldhook = None, world = [], trace = []\<rparr>) \<and>
   register demo_env 4 [''new''] [(''func'', ''v'')]
       \<lparr>handlers = [(4, ([''old''], []))], oldhook = None, world = [], trace = []\<rparr> =
     (Inl TypeError_arguments,
      \<lparr>handlers = [(4, ([''old''], []))], oldhook = None, world = [], trace = []\<rparr>)"
  by (simp add: register_def bind_register_def bindable_def has_key_def dict_setitem_def
      module_load_def demo_env_def)

text \<open>
  Claim C6, amended. In every state that calls of \<open>register\<close> and \<open>unregister\<close> lead to
  after the import, the registry has at most one item keyed by \<open>f\<close>, also after a further
  call. After \<open>register f a1 kw1\<close> has returned, a call \<open>register f a2 kw2\<close> whose keywords
  bind returns \<open>f\<close>, the one item of \<open>f\<close> then holds \<open>(a2, kw2)\<close>, the registry has not
  grown, and a run of \<open>run_handlers\<close> applies \<open>f\<close> exactly once, to \<open>(a2, kw2)\<close>. A call
  whose keywords do not bind raises \<^verbatim>\<open>TypeError\<close> and leaves \<open>(a1, kw1)\<close> stored.
\<close>

theorem one_entry_per_callable:
  fixes E :: "('f, 'v, 'w, 'h) env"
  assumes "s = run_calls E cs (module_load h w)"
    and "register E f a1 kw1 s = (Inr r, s1)"
    and "s2 = snd (register E f a2 kw2 s1)"
  shows "length (entries_of f (handlers s)) \<le> 1 \<and>
    entries_of f (handlers s1) = [(f, (a1, kw1))] \<and>
    length (entries_of f (handlers s2)) \<le> 1 \<and>
    (bindable kw2 \<longrightarrow>
      fst (register E f a2 kw2 s1) = Inr f \<and>
      entries_of f (handlers s2) = [(f, (a2, kw2))] \<and>
      length (handlers s2) = length (handlers s1) \<and>
      \<not> has_key (before_key f (handlers s2)) f \<and> \<not> has_key (after_key f (handlers s2)) f \<and>
      world (snd (run_handlers E s2)) =
        invoke_each_once E (after_key f (handlers s2))
          (snd (invoke E f a2 kw2
             (invoke_each_once E (before_key f (handlers s2)) (world s2))))) \<and>
    (\<not> bindable kw2 \<longrightarrow>
      register E f a2 kw2 s1 = (Inl TypeError_arguments, s1) \<and>
      entries_of f (handlers s2) = [(f, (a1, kw1))])"
proof -
  have d: "distinct (map fst (handlers s))"
    using assms(1) by (simp add: loaded_distinct)
  have first: "bindable kw1 \<and> hashable E f \<and> r = f \<and>
      s1 = s\<lparr>handlers := store f (a1, kw1) (handlers s)\<rparr>"
    using assms(2) by (rule register_returned)
  then have d1: "distinct (map fst (handlers s1))"
    using d by (simp add: store_distinct)
  have e1: "entries_of f (handlers s1) = [(f, (a1, kw1))]"
    using first d by (simp add: store_entry)
  have l0: "length (entries_of f (handlers s)) \<le> 1"
    using d by (rule entries_of_length)
  show ?thesis
  proof (cases "bindable kw2")
    case False
    then have "register E f a2 kw2 s1 = (Inl TypeError_arguments, s1)"
      by (rule register_unbound)
    with False assms(3) e1 l0 show ?thesis by simp
  next
    case True
    have reg: "register E f a2 kw2 s1 =
        (Inr f, s1\<lparr>handlers := store f (a2, kw2) (handlers s1)\<rparr>)"
      using True first by (simp add: register_hashable)
    then have s2: "s2 = s1\<lparr>handlers := store f (a2, kw2) (handlers s1)\<rparr>"
      using assms(3) by simp
    then have d2: "distinct (map fst (handlers s2))"
      using d1 by (simp add: store_distinct)
    have e2: "entries_of f (handlers s2) = [(f, (a2, kw2))]"
      using s2 d1 by (simp add: store_entry)
    have "has_key (handlers s1) f"
      using first by (simp add: store_keys has_key_def)
    then have "length (map fst (handlers s2)) = length (map fst (handlers s1))"
      unfolding s2 by (simp add: store_keys del: length_map)
    then have len: "length (handlers s2) = length (handlers s1)"
      by simp
    have m2: "map_of (handlers s2) f = Some (a2, kw2)"
      using s2 by (simp add: store_lookup)
    have once: "world (snd (run_handlers E s2)) =
        invoke_each_once E (after_key f (handlers s2))
          (snd (invoke E f a2 kw2
             (invoke_each_once E (before_key f (handlers s2)) (world s2))))"
      using m2 by (rule run_handlers_once)
    have absent: "\<not> has_key (before_key f (handlers s2)) f"
        "\<not> has_key (after_key f (handlers s2)) f"
      using d2 by (simp_all add: before_key_absent after_key_absent)
    from True reg e1 e2 l0 len once absent show ?thesis by simp
  qed
qed

theorem one_entry_per_callable_witness:
  "handlers (snd (register demo_env 4 [''new''] []
      (snd (register demo_env 4 [''old''] [(''k'', ''v'')]
         (run_calls demo_env [Register 5 [] [], Unregister 9] (module_load None []))))))
     = [(5, ([], [])), (4, ([''new''], []))] \<and>
   world (snd (run_handlers demo_env (snd (register demo_env 4 [''new''] []
      (snd (register demo_env 4 [''old''] [(''k'', ''v'')]
         (run_calls demo_env [Register 5 [] [], Unregister 9] (module_load None []))))))))
     = [''new''] \<and>
   \<not> bindable [(''func'', ''v'')] \<and>
   entries_of 4 (handlers (snd (register demo_env 4 [''new''] [(''func'', ''v'')]
      (snd (register demo_env 4 [''old''] [(''k'', ''v'')]
         (run_calls demo_env [Register 5 [] [], Unregister 9] (module_load None []))))))) =
     [(4, ([''old''], [(''k'', ''v'')]))]"
proof -
  let ?s = "run_calls demo_env [Register 5 [] [], Unregister 9] (module_load None [])
              :: (nat, string, string list, nat) state"
  let ?s1 = "snd (register demo_env 4 [''old''] [(''k'', ''v'')] ?s)"
  let ?s2 = "snd (register demo_env 4 [''new''] [] ?s1)"
  have b: "bindable ([] :: string kwargs)" "\<not> bindable [(''func'', ''v'')]"
    by (simp_all add: bindable_def has_key_def)
  have h2: "register demo_env 4 [''old''] [(''k'', ''v'')] ?s = (Inr 4, ?s1)"
    by (simp add: register_def bind_register_def bindable_def has_key_def dict_setitem_def
        demo_env_def)
  from one_entry_per_callable [OF refl h2 refl, of "[''new'']" "[]"]
       one_entry_per_callable [OF refl h2 refl, of "[''new'']" "[(''func'', ''v'')]"]
       b
  show ?thesis
    by (simp add: before_key_def after_key_def entries_of_def register_def bind_register_def
        bindable_def unregister_def dict_setitem_def dict_contains_def dict_delitem_def
        has_key_def module_load_def demo_env_def)
qed

text \<open>
  Claim C7, as stated, fails for an object that cannot be hashed: the test
  \<^verbatim>\<open>func in _handlers\<close> of line 36 hashes \<open>func\<close>, so \<open>unregister\<close> of such an object, which
  was never registered, raises \<^verbatim>\<open>TypeError\<close> instead of doing nothing.
\<close>

theorem unregister_raises_counterexample:
  "\<not> has_key (handlers (module_load None [] :: (nat, string, string list, nat) state)) 100 \<and>
   unregister demo_env 100 (module_load None []) = (Inl TypeError_unhashable, module_load None [])"
  by (simp add: unregister_def dict_contains_def demo_env_def module_load_def has_key_def)

text \<open>
  Claim C7, amended. For a hashable \<open>f\<close>, \<open>unregister f\<close> returns normally and leaves a
  registry without an item of \<open>f\<close>, so that a later crash does not call \<open>f\<close>; when \<open>f\<close> had
  no item the state is unchanged; a second \<open>unregister f\<close> returns normally and changes
  nothing. For an \<open>f\<close> that cannot be hashed it raises \<^verbatim>\<open>TypeError\<close> and changes nothing.
  For every object, hashable or not, a second \<open>unregister\<close> leaves the state the first
  one left.
\<close>

theorem unregister_removes:
  assumes "s' = snd (unregister E f s)"
  shows "(hashable E f \<longrightarrow>
      fst (unregister E f s) = Inr () \<and>
      \<not> has_key (handlers s') f \<and>
      entries_of f (calls_of (crash_events E s')) = [] \<and>
      (\<not> has_key (handlers s) f \<longrightarrow> s' = s) \<and>
      unregister E f s' = (Inr (), s')) \<and>
    (\<not> hashable E f \<longrightarrow> unregister E f s = (Inl TypeError_unhashable, s)) \<and>
    snd (unregister E f s') = s'"
proof (cases "hashable E f")
  case True
  have s': "s' = s\<lparr>handlers := remove f (handlers s)\<rparr>" and ok: "fst (unregister E f s) = Inr ()"
    using assms True by (simp_all add: unregister_hashable)
  then have gone: "\<not> has_key (handlers s') f"
    by (simp add: remove_key)
  then have "entries_of f (calls_of (crash_events E s')) = []"
    by (simp add: crash_calls entries_of_absent)
  moreover have "\<not> has_key (handlers s) f \<longrightarrow> s' = s"
    using s' by (simp add: remove_absent)
  moreover have "unregister E f s' = (Inr (), s')"
    using True gone by (simp add: unregister_hashable remove_absent)
  ultimately show ?thesis using ok gone True by simp
next
  case False
  with assms show ?thesis by (simp add: unregister_unhashable)
qed

theorem unregister_removes_witness:
  "hashable demo_env 1 \<and>
   handlers (snd (unregister demo_env 1 (demo_state None))) =
     [(4, ([''first''], [])), (2, ([], [])), (3, ([], [])),
      (5, ([''last''], [(''level'', ''fatal'')]))] \<and>
   entries_of 1 (calls_of (crash_events demo_env (snd (unregister demo_env 1 (demo_state None)))))
     = [] \<and>
   unregister demo_env 1 (snd (unregister demo_env 1 (demo_state None))) =
     (Inr (), snd (unregister demo_env 1 (demo_state None))) \<and>
   hashable demo_env 6 \<and> \<not> has_key (handlers (demo_state None)) 6 \<and>
   unregister demo_env 6 (demo_state None) = (Inr (), demo_state None) \<and>
   \<not> hashable demo_env 100 \<and>
   unregister demo_env 100 (demo_state None) = (Inl TypeError_unhashable, demo_state None)"
proof -
  have h: "hashable demo_env 1" "hashable demo_env 6" "\<not> hashable demo_env 100"
    by (simp_all add: demo_env_def)
  have hs: "handlers (snd (unregister demo_env 1 (demo_state None))) =
     [(4, ([''first''], [])), (2, ([], [])), (3, ([], [])),
      (5, ([''last''], [(''level'', ''fatal'')]))]"
    by (simp add: unregister_def dict_contains_def dict_delitem_def has_key_def demo_defs)
  have absent: "\<not> has_key (handlers (demo_state None)) 6"
    by (simp add: has_key_def demo_defs)
  from unregister_removes [OF refl, of demo_env 1 "demo_state None"]
       unregister_removes [OF refl, of demo_env 6 "demo_state None"]
       unregister_removes [OF refl, of demo_env 100 "demo_state None"] h hs absent
  show ?thesis
    by (cases "unregister demo_env 6 (demo_state None)") simp
qed

text \<open>
  Claim C8, as stated, fails in two places. For an object that cannot be hashed the
  assignment \<^verbatim>\<open>_handlers[func] = (args, kwargs)\<close> of line 27 raises \<^verbatim>\<open>TypeError\<close>. For a
  hashable callable a keyword argument named \<^verbatim>\<open>func\<close>, or a keyword given twice, raises
  \<^verbatim>\<open>TypeError\<close> when the arguments are bound, before line 27. The state is unchanged.
\<close>

theorem register_fails_counterexample:
  "\<not> hashable demo_env 100 \<and>
   register demo_env 100 [] [] (module_load None []) =
     (Inl TypeError_unhashable, module_load None []) \<and>
   hashable demo_env 6 \<and>
   register demo_env 6 [] [(''func'', ''v'')] (module_load None []) =
     (Inl TypeError_arguments, module_load None []) \<and>
   register demo_env 6 [] [(''k'', ''a''), (''k'', ''b'')] (module_load None []) =
     (Inl TypeError_arguments, module_load None [])"
  by (simp add: register_def bind_register_def bindable_def has_key_def dict_setitem_def
      demo_env_def)

text \<open>
  Claim C8, amended. For a hashable \<open>f\<close> and keywords that bind (pairwise distinct, none
  named \<^verbatim>\<open>func\<close>), \<open>register f a kw\<close> returns \<open>f\<close> itself and does not fail; afterwards
  the registry maps \<open>f\<close> to \<open>(a, kw)\<close>, and nothing else has changed: not the items of
  other callables, the previous hook, the world or the trace. With keywords that do not
  bind, and with an \<open>f\<close> that cannot be hashed, it raises \<^verbatim>\<open>TypeError\<close> and changes
  nothing.
\<close>

theorem register_returns_callable:
  assumes "s' = snd (register E f a kw s)"
  shows "(bindable kw \<and> hashable E f \<longrightarrow>
      fst (register E f a kw s) = Inr f \<and>
      map_of (handlers s') f = Some (a, kw) \<and>
      entries_except f (handlers s') = entries_except f (handlers s) \<and>
      oldhook s' = oldhook s \<and> world s' = world s \<and> trace s' = trace s) \<and>
    (\<not> bindable kw \<longrightarrow> register E f a kw s = (Inl TypeError_arguments, s)) \<and>
    (bindable kw \<and> \<not> hashable E f \<longrightarrow> register E f a kw s = (Inl TypeError_unhashable, s))"
  using assms
  by (simp add: register_hashable register_unhashable register_unbound store_lookup store_others)

theorem register_returns_callable_witness:
  "bindable [(''path'', ''y'')] \<and> hashable demo_env 6 \<and>
   register demo_env 6 [''x''] [(''path'', ''y'')] (demo_state None) =
     (Inr 6, \<lparr>handlers = demo_handlers @ [(6, ([''x''], [(''path'', ''y'')]))],
              oldhook = None, world = [], trace = []\<rparr>) \<and>
   \<not> bindable [(''func'', ''y'')] \<and>
   register demo_env 6 [''x''] [(''func'', ''y'')] (demo_state None) =
     (Inl TypeError_arguments, demo_state None) \<and>
   \<not> hashable demo_env 100 \<and>
   register demo_env 100 [''x''] [] (demo_state None) =
     (Inl TypeError_unhashable, demo_state None)"
proof -
  have h: "hashable demo_env 6" "\<not> hashable demo_env 100"
    by (simp_all add: demo_env_def)
  have b: "bindable [(''path'', ''y'')]" "\<not> bindable [(''func'', ''y'')]"
      "bindable ([] :: string kwargs)"
    by (simp_all add: bindable_def has_key_def)
  have hs: "snd (register demo_env 6 [''x''] [(''path'', ''y'')] (demo_state None)) =
      \<lparr>handlers = demo_handlers @ [(6, ([''x''], [(''path'', ''y'')]))],
       oldhook = None, world = [], trace = []\<rparr>"
    by (simp add: register_def bind_register_def bindable_def has_key_def dict_setitem_def
        demo_defs)
  from register_returns_callable [OF refl, of "[(''path'', ''y'')]" demo_env 6 "[''x'']"
         "demo_state None"]
       register_returns_callable [OF refl, of "[(''func'', ''y'')]" demo_env 6 "[''x'']"
         "demo_state None"]
       register_returns_callable [OF refl, of "[]" demo_env 100 "[''x'']" "demo_state None"]
       h b hs
  show ?thesis
    by (cases "register demo_env 6 [''x''] [(''path'', ''y'')] (demo_state None)") simp
qed

text \<open>
  Claim C9. \<open>register f\<close> and \<open>unregister f\<close> leave the items of every callable other than
  \<open>f\<close> as they were, in their order; whatever the registry held for \<open>g \<noteq> f\<close> it still
  holds. This is so whether the call returns or raises.
\<close>

theorem other_entries_untouched:
  "entries_except f (handlers (snd (register E f a kw s))) = entries_except f (handlers s) \<and>
   entries_except f (handlers (snd (unregister E f s))) = entries_except f (handlers s) \<and>
   (g \<noteq> f \<longrightarrow>
      map_of (handlers (snd (register E f a kw s))) g = map_of (handlers s) g \<and>
      map_of (handlers (snd (unregister E f s))) g = map_of (handlers s) g)"
proof -
  have reg: "entries_except f (handlers (snd (register E f a kw s))) =
      entries_except f (handlers s) \<and>
      (g \<noteq> f \<longrightarrow> map_of (handlers (snd (register E f a kw s))) g = map_of (handlers s) g)"
    using register_cases [of E f a kw s] by (auto simp add: store_others store_lookup)
  have unreg: "entries_except f (handlers (snd (unregister E f s))) =
      entries_except f (handlers s) \<and>
      (g \<noteq> f \<longrightarrow> map_of (handlers (snd (unregister E f s))) g = map_of (handlers s) g)"
  proof (cases "hashable E f")
    case True
    then show ?thesis
      by (simp add: unregister_hashable remove_lookup)
         (simp add: remove_filter entries_except_def)
  next
    case False
    then show ?thesis by (simp add: unregister_unhashable)
  qed
  from reg unreg show ?thesis by simp
qed

theorem other_entries_untouched_witness:
  "(4::nat) \<noteq> 1 \<and>
   map_of (handlers (snd (register demo_env 1 [''x''] [] (demo_state None)))) 4
     = Some ([''first''], []) \<and>
   map_of (handlers (snd (unregister demo_env 1 (demo_state None)))) 4 = Some ([''first''], [])"
proof -
  have h: "(4::nat) \<noteq> 1" by simp
  from other_entries_untouched [of 1 demo_env "[''x'']" "[]" "demo_state None" 4] h
  show ?thesis
    by (simp add: demo_state_def demo_handlers_def)
qed

subsection \<open>The replacement hook\<close>

text \<open>
  Claim C3, as stated, fails in two ways. The call of the previous hook at line 65 is not
  guarded: when hook 7 raises, its exception leaves \<open>newhook\<close> and no registered callable
  is called. And line 64 tests the truth value of the captured object, not whether there
  is one: the captured hook 0, whose truth value is false, is not called.
\<close>

theorem previous_hook_counterexample:
  "oldhook (demo_state (Some 7)) = Some 7 \<and>
   newhook demo_env ValueError ''x'' [(''main'', 1)] (demo_state (Some 7)) =
     (Inl (Propagated RuntimeError ''hook'' [(''_newhook'', 65), (''badhook'', 1)]),
      \<lparr>handlers = demo_handlers, oldhook = Some 7, world = [],
       trace = [HookCalled 7 ValueError ''x'' [(''main'', 1)]]\<rparr>) \<and>
   calls_of (hook_events demo_env ValueError ''x'' [(''main'', 1)] (demo_state (Some 7))) = [] \<and>
   oldhook (demo_state (Some 0)) = Some 0 \<and>
   hook_events demo_env ValueError ''x'' [(''main'', 1)] (demo_state (Some 0)) =
     [Called 4 [''first''] [], Called 1 [] [], Printed ValueError ''boom'' [(''flaky'', 2)],
      Called 2 [] [], Called 3 [] [], Printed KeyboardInterrupt ''^C'' [(''wait'', 9)],
      Called 5 [''last''] [(''level'', ''fatal'')]]"
  by (simp add: demo_defs)

text \<open>
  Claim C3, amended. Without a captured hook, or with a captured object whose truth value
  is false, \<open>newhook\<close> is \<open>run_handlers\<close>: it returns normally and calls every registered
  callable. With a captured hook whose truth value is true and which returns, \<open>newhook\<close>
  first calls it with the same \<open>typ\<close>, \<open>val\<close> and \<open>tb\<close>, then runs \<open>run_handlers\<close> in the
  state the hook left: it returns normally, and what follows the call of the hook in the
  trace are the calls of every registered callable. When the hook raises, its exception
  leaves \<open>newhook\<close> and the call of the hook is all that has happened.
\<close>

theorem previous_hook_first:
  fixes E :: "('f, 'v, 'w, 'h) env"
  shows "(oldhook s = None \<or> (oldhook s = Some h \<and> \<not> truthy E h) \<longrightarrow>
      newhook E typ val tb s = run_handlers E s \<and>
      fst (newhook E typ val tb s) = Inr () \<and>
      calls_of (hook_events E typ val tb s) = handlers s) \<and>
    (oldhook s = Some h \<and> truthy E h \<and> call_hook E h typ val tb (world s) = (Returned, w) \<longrightarrow>
      newhook E typ val tb s =
        run_handlers E (s\<lparr>world := w, trace := trace s @ [HookCalled h typ val tb]\<rparr>) \<and>
      fst (newhook E typ val tb s) = Inr () \<and>
      (\<exists>evs. hook_events E typ val tb s = HookCalled h typ val tb # evs \<and>
             calls_of evs = handlers s)) \<and>
    (oldhook s = Some h \<and> truthy E h \<and> call_hook E h typ val tb (world s) = (Raised c v t, w)
      \<longrightarrow>
      fst (newhook E typ val tb s) = Inl (Propagated c v ((''_newhook'', 65) # t)) \<and>
      hook_events E typ val tb s = [HookCalled h typ val tb])"
proof (intro conjI impI)
  assume skip: "oldhook s = None \<or> (oldhook s = Some h \<and> \<not> truthy E h)"
  then show eq: "newhook E typ val tb s = run_handlers E s"
    by (auto simp add: newhook_def)
  show "fst (newhook E typ val tb s) = Inr ()"
    unfolding eq by (simp add: run_handlers_def for_items_returns)
  have "hook_events E typ val tb s = crash_events E s"
    unfolding hook_events_def crash_events_def eq by simp
  then show "calls_of (hook_events E typ val tb s) = handlers s"
    by (simp add: crash_calls)
next
  let ?s1 = "s\<lparr>world := w, trace := trace s @ [HookCalled h typ val tb]\<rparr>"
  assume some: "oldhook s = Some h \<and> truthy E h \<and>
      call_hook E h typ val tb (world s) = (Returned, w)"
  then show eq: "newhook E typ val tb s = run_handlers E ?s1"
    by (simp add: newhook_def)
  show "fst (newhook E typ val tb s) = Inr ()"
    unfolding eq by (simp add: run_handlers_def for_items_returns)
  obtain evs where "trace (snd (for_items E (handlers ?s1) ?s1)) = trace ?s1 @ evs"
    and "calls_of evs = handlers ?s1"
    using for_items_trace by blast
  then have "hook_events E typ val tb s = HookCalled h typ val tb # evs \<and>
      calls_of evs = handlers s"
    unfolding hook_events_def eq by (simp add: run_handlers_def)
  then show "\<exists>evs. hook_events E typ val tb s = HookCalled h typ val tb # evs \<and>
      calls_of evs = handlers s"
    by blast
next
  assume raises: "oldhook s = Some h \<and> truthy E h \<and>
      call_hook E h typ val tb (world s) = (Raised c v t, w)"
  then show "fst (newhook E typ val tb s) = Inl (Propagated c v ((''_newhook'', 65) # t))"
    by (simp add: newhook_def)
  from raises show "hook_events E typ val tb s = [HookCalled h typ val tb]"
    by (simp add: newhook_def hook_events_def)
qed

theorem previous_hook_first_witness:
  "oldhook (demo_state None) = None \<and>
   calls_of (hook_events demo_env ValueError ''x'' [(''main'', 1)] (demo_state None))
     = demo_handlers \<and>
   oldhook (demo_state (Some 0)) = Some 0 \<and> \<not> truthy demo_env 0 \<and>
   calls_of (hook_events demo_env ValueError ''x'' [(''main'', 1)] (demo_state (Some 0)))
     = demo_handlers \<and>
   oldhook (demo_state (Some 1)) = Some 1 \<and> truthy demo_env 1 \<and>
   call_hook demo_env 1 ValueError ''x'' [(''main'', 1)] (world (demo_state (Some 1)))
     = (Returned, [''reported'']) \<and>
   (\<exists>evs. hook_events demo_env ValueError ''x'' [(''main'', 1)] (demo_state (Some 1)) =
      HookCalled 1 ValueError ''x'' [(''main'', 1)] # evs \<and> calls_of evs = demo_handlers) \<and>
   oldhook (demo_state (Some 7)) = Some 7 \<and> truthy demo_env 7 \<and>
   call_hook demo_env 7 ValueError ''x'' [(''main'', 1)] (world (demo_state (Some 7)))
     = (Raised RuntimeError ''hook'' [(''badhook'', 1)], []) \<and>
   hook_events demo_env ValueError ''x'' [(''main'', 1)] (demo_state (Some 7)) =
     [HookCalled 7 ValueError ''x'' [(''main'', 1)]]"
proof -
  have h0: "oldhook (demo_state None) = None"
      "oldhook (demo_state (Some 0)) = Some 0 \<and> \<not> truthy demo_env 0"
    by (simp_all add: demo_state_def demo_env_def)
  have h1: "oldhook (demo_state (Some 1)) = Some 1 \<and> truthy demo_env 1 \<and>
      call_hook demo_env 1 ValueError ''x'' [(''main'', 1)] (world (demo_state (Some 1)))
        = (Returned, [''reported''])"
    by (simp add: demo_state_def demo_env_def)
  have h7: "oldhook (demo_state (Some 7)) = Some 7 \<and> truthy demo_env 7 \<and>
      call_hook demo_env 7 ValueError ''x'' [(''main'', 1)] (world (demo_state (Some 7)))
        = (Raised RuntimeError ''hook'' [(''badhook'', 1)], [])"
    by (simp add: demo_state_def demo_env_def)
  have hh: "handlers (demo_state None) = demo_handlers"
      "handlers (demo_state (Some 0)) = demo_handlers"
      "handlers (demo_state (Some 1)) = demo_handlers"
    by (simp_all add: demo_state_def)
  from previous_hook_first [of "demo_state None" 0 demo_env ValueError "''x''" "[(''main'', 1)]"]
       previous_hook_first [of "demo_state (Some 0)" 0 demo_env ValueError "''x''"
         "[(''main'', 1)]"]
       previous_hook_first [of "demo_state (Some 1)" 1 demo_env ValueError "''x''"
         "[(''main'', 1)]" "[''reported'']"]
       previous_hook_first [of "demo_state (Some 7)" 7 demo_env ValueError "''x''"
         "[(''main'', 1)]" "[]" RuntimeError "''hook''" "[(''badhook'', 1)]"]
       h0 h1 h7 hh
  show ?thesis by simp
qed

end
